theory Spec2Isabelle
  imports
    Main
    "HOL-Library.Sublist"
    "HOL-Library.Char_ord"
    "HOL-Library.List_Lexorder"
    "HOL-Library.AList"
begin

section \<open>Python strings\<close>

text \<open>
  A Python \<open>str\<close> is modelled as a \<open>string\<close>, one \<open>char\<close> per code point. The
  model therefore covers the strings whose code points are below 256 (ASCII and Latin-1);
  the character classes below are the ones Python's \<open>str.isalnum\<close>, \<open>str.isspace\<close> and the
  \<open>re\<close> classes \<open>\w\<close>, \<open>\s\<close>, \<open>\d\<close> have on that range. Comparison of strings is
  lexicographic on code points (\<open>List_Lexorder\<close> over \<open>Char_ord\<close>), as in Python.
\<close>

definition isalnum :: "char \<Rightarrow> bool" where
  "isalnum c =
     (let n = (of_char c :: nat)
      in (48 \<le> n \<and> n \<le> 57) \<or> (65 \<le> n \<and> n \<le> 90) \<or> (97 \<le> n \<and> n \<le> 122) \<or>
         n = 170 \<or> n = 178 \<or> n = 179 \<or> n = 181 \<or> n = 185 \<or> n = 186 \<or>
         (188 \<le> n \<and> n \<le> 190) \<or> (192 \<le> n \<and> n \<le> 214) \<or>
         (216 \<le> n \<and> n \<le> 246) \<or> 248 \<le> n)"

definition isspace :: "char \<Rightarrow> bool" where
  "isspace c =
     (let n = (of_char c :: nat)
      in (9 \<le> n \<and> n \<le> 13) \<or> (28 \<le> n \<and> n \<le> 32) \<or> n = 133 \<or> n = 160)"

definition isdigit :: "char \<Rightarrow> bool" where
  \<comment> \<open>the class \<open>\d\<close>\<close>
  "isdigit c = (let n = (of_char c :: nat) in 48 \<le> n \<and> n \<le> 57)"

definition is_word :: "char \<Rightarrow> bool" where
  \<comment> \<open>the class \<open>\w\<close>: alphanumeric or underscore\<close>
  "is_word c = (isalnum c \<or> c = CHR ''_'')"

definition digit_char :: "nat \<Rightarrow> char" where
  "digit_char d =
     (if d = 0 then CHR ''0'' else if d = 1 then CHR ''1'' else if d = 2 then CHR ''2''
      else if d = 3 then CHR ''3'' else if d = 4 then CHR ''4'' else if d = 5 then CHR ''5''
      else if d = 6 then CHR ''6'' else if d = 7 then CHR ''7'' else if d = 8 then CHR ''8''
      else CHR ''9'')"

text \<open>\<open>str(n)\<close> for a non-negative integer: its decimal digits.\<close>

function str_of_nat :: "nat \<Rightarrow> string" where
  "str_of_nat n =
     (if n < 10 then [digit_char n] else str_of_nat (n div 10) @ [digit_char (n mod 10)])"
  by pat_completeness auto
termination
  by (relation "measure (\<lambda>n. n)") auto

declare str_of_nat.simps [simp del]

text \<open>\<open>sub in s\<close>: \<open>sub\<close> occurs in \<open>s\<close> as a contiguous substring.\<close>

fun str_contains :: "string \<Rightarrow> string \<Rightarrow> bool" where
  "str_contains sub [] = (sub = [])"
| "str_contains sub (c # cs) = (prefix sub (c # cs) \<or> str_contains sub cs)"

text \<open>
  \<open>s.replace(old, new)\<close>: every occurrence of \<open>old\<close>, found from left to right without
  overlaps, is replaced by \<open>new\<close>; an empty \<open>old\<close> matches before every character and at
  the end.
\<close>

fun str_replace :: "string \<Rightarrow> string \<Rightarrow> string \<Rightarrow> string" where
  "str_replace old new [] = (if old = [] then new else [])"
| "str_replace old new (c # cs) =
     (if old = [] then new @ c # str_replace old new cs
      else if prefix old (c # cs) then new @ str_replace old new (drop (length old - 1) cs)
      else c # str_replace old new cs)"

text \<open>\<open>s.strip()\<close>: leading and trailing whitespace removed.\<close>

definition strip :: "string \<Rightarrow> string" where
  "strip s = rev (dropWhile isspace (rev (dropWhile isspace s)))"

text \<open>\<open>re.sub(r'[^\w\s-]', '', s)\<close>: every character outside the three classes is deleted.\<close>

definition sub_special :: "string \<Rightarrow> string" where
  "sub_special s = filter (\<lambda>c. is_word c \<or> isspace c \<or> c = CHR ''-'') s"

text \<open>
  \<open>re.sub(r'\s+', '_', s)\<close>: scanning from the left, every maximal run of whitespace is
  replaced by one underscore.
\<close>

function sub_whitespace :: "string \<Rightarrow> string" where
  "sub_whitespace [] = []"
| "sub_whitespace (c # cs) =
     (if isspace c then CHR ''_'' # sub_whitespace (dropWhile isspace cs)
      else c # sub_whitespace cs)"
  by pat_completeness auto
termination
  by (relation "measure length") (auto simp: length_dropWhile_le less_Suc_eq_le)

section \<open>Entity mapping\<close>

datatype exn = TypeError

text \<open>
  The groups of a match (\<open>match.groups()\<close>) are a tuple with one entry per group of the
  pattern; a group that took no part in the match is \<open>None\<close>.
\<close>

type_synonym groups = "string option list"

definition py_str :: "string option \<Rightarrow> string" where
  \<comment> \<open>\<open>str(group)\<close>\<close>
  "py_str g = (case g of None \<Rightarrow> ''None'' | Some s \<Rightarrow> s)"

definition placeholder :: "nat \<Rightarrow> string" where
  \<comment> \<open>the f-string \<open>{group<n>}\<close>\<close>
  "placeholder n = ''{group'' @ str_of_nat n @ ''}''"

text \<open>The loop \<open>for i, group in enumerate(groups)\<close>, started at index \<open>i\<close>.\<close>

fun replace_groups :: "nat \<Rightarrow> groups \<Rightarrow> string \<Rightarrow> string" where
  "replace_groups i [] result = result"
| "replace_groups i (g # rest) result =
     replace_groups (i + 1) rest
       (if str_contains (placeholder (i + 1)) result
        then str_replace (placeholder (i + 1)) (py_str g) result
        else result)"

text \<open>
  \<open>groups[k] if len(groups) > k else ""\<close>: the value handed to \<open>replace\<close> for a legacy
  alias; it is \<open>None\<close> when group \<open>k\<close> exists and took no part in the match.
\<close>

definition alias_value :: "groups \<Rightarrow> nat \<Rightarrow> string option" where
  "alias_value gs k = (if length gs > k then gs ! k else Some [])"

text \<open>\<open>result.replace(old, v)\<close> raises \<open>TypeError\<close> when \<open>v\<close> is not a string.\<close>

definition py_replace :: "string \<Rightarrow> string option \<Rightarrow> string \<Rightarrow> exn + string" where
  "py_replace old v s = (case v of None \<Rightarrow> Inl TypeError | Some new \<Rightarrow> Inr (str_replace old new s))"

text \<open>Lines 128 to 139 of \<open>_map_entity\<close>: the substitution of the placeholders.\<close>

definition substitute :: "string \<Rightarrow> groups \<Rightarrow> exn + string" where
  "substitute mapping gs =
     (case py_replace ''{timestamp}'' (alias_value gs 0) (replace_groups 0 gs mapping) of
        Inl e \<Rightarrow> Inl e
      | Inr r1 \<Rightarrow>
     (case py_replace ''{level}'' (alias_value gs 1) r1 of
        Inl e \<Rightarrow> Inl e
      | Inr r2 \<Rightarrow>
     (case py_replace ''{tag}'' (alias_value gs 2) r2 of
        Inl e \<Rightarrow> Inl e
      | Inr r3 \<Rightarrow> py_replace ''{message}'' (alias_value gs 3) r3)))"

text \<open>Lines 141 to 145: the sanitisation and the fallback.\<close>

definition sanitize :: "string \<Rightarrow> string" where
  "sanitize r = (let result = sub_whitespace (strip (sub_special r))
                 in if result = [] then ''Unknown'' else result)"

definition map_entity :: "string \<Rightarrow> groups \<Rightarrow> exn + string" where
  "map_entity mapping gs =
     (if mapping = [] then Inr ''Unknown''
      else case substitute mapping gs of Inl e \<Rightarrow> Inl e | Inr r \<Rightarrow> Inr (sanitize r))"

section \<open>Data models\<close>

datatype LogLevel = VERBOSE | DEBUG | INFO | WARNING | ERROR | FATAL

fun LogLevel_value :: "LogLevel \<Rightarrow> string" where
  "LogLevel_value VERBOSE = ''V''"
| "LogLevel_value DEBUG = ''D''"
| "LogLevel_value INFO = ''I''"
| "LogLevel_value WARNING = ''W''"
| "LogLevel_value ERROR = ''E''"
| "LogLevel_value FATAL = ''F''"

record LogEntry =
  timestamp :: string
  level :: LogLevel
  tag :: string
  message :: string
  original_line :: string
  line_number :: int

record Template =
  name :: string
  pattern :: string
  sequence_mapping :: "string \<rightharpoonup> string"
  priority :: int
  description :: string

text \<open>
  The values stored in the metadata dictionary of an event. \<open>MFloat n\<close> stands for the float
  \<open>timedelta(microseconds=n).total_seconds()\<close>, that is \<open>n / 10**6\<close> rounded to a double:
  the model keeps the exact number of microseconds.
\<close>

datatype meta_value = MStr string | MInt int | MGroups groups | MFloat int

text \<open>
  The metadata dictionary is an association list in insertion order; \<open>d[k] = v\<close> is
  \<open>AList.update k v d\<close> and \<open>d.get(k)\<close> is \<open>map_of d k\<close>.
\<close>

record SequenceEvent =
  timestamp :: string
  from_entity :: string
  to_entity :: string
  message :: string
  event_type :: string
  metadata :: "(string \<times> meta_value) list"
  log_entry :: "LogEntry option"

section \<open>Construction of one event\<close>

definition dict_get :: "(string \<rightharpoonup> string) \<Rightarrow> string \<Rightarrow> string \<Rightarrow> string" where
  \<comment> \<open>\<open>d.get(key, default)\<close>\<close>
  "dict_get d key dflt = (case d key of None \<Rightarrow> dflt | Some v \<Rightarrow> v)"

text \<open>
  \<open>_create_sequence_event\<close>: the body runs under \<open>try\<close>; an exception of \<open>_map_entity\<close> is
  caught, \<open>log_error\<close> is called once, and the result is \<open>None\<close>.
\<close>

definition create_sequence_event :: "LogEntry \<Rightarrow> Template \<Rightarrow> groups \<Rightarrow> SequenceEvent option" where
  "create_sequence_event entry template gs =
     (case map_entity (dict_get (sequence_mapping template) ''from'' ''Unknown'') gs of
        Inl e \<Rightarrow> None
      | Inr from_e \<Rightarrow>
     (case map_entity (dict_get (sequence_mapping template) ''to'' ''Unknown'') gs of
        Inl e \<Rightarrow> None
      | Inr to_e \<Rightarrow>
     (case map_entity (dict_get (sequence_mapping template) ''message'' ''Event'') gs of
        Inl e \<Rightarrow> None
      | Inr msg \<Rightarrow>
          Some \<lparr>SequenceEvent.timestamp = LogEntry.timestamp entry,
                from_entity = from_e,
                to_entity = to_e,
                message = msg,
                event_type = name template,
                metadata =
                  [(''template_name'', MStr (name template)),
                   (''template_priority'', MInt (priority template)),
                   (''log_level'', MStr (LogLevel_value (level entry))),
                   (''log_tag'', MStr (tag entry)),
                   (''groups'', MGroups gs)],
                log_entry = Some entry\<rparr>)))"

section \<open>Timestamps\<close>

record datetime =
  dt_year :: int
  dt_month :: int
  dt_day :: int
  dt_hour :: int
  dt_minute :: int
  dt_second :: int
  dt_microsecond :: int

definition is_leap :: "int \<Rightarrow> bool" where
  "is_leap y = (y mod 4 = 0 \<and> (y mod 100 \<noteq> 0 \<or> y mod 400 = 0))"

definition days_in_month :: "int \<Rightarrow> int \<Rightarrow> int" where
  "days_in_month y m =
     (if m = 2 then (if is_leap y then 29 else 28)
      else if m = 4 \<or> m = 6 \<or> m = 9 \<or> m = 11 then 30 else 31)"

definition days_before_month :: "int \<Rightarrow> int \<Rightarrow> int" where
  "days_before_month y m = sum_list (map (days_in_month y) [1..m - 1])"

definition days_before_year :: "int \<Rightarrow> int" where
  "days_before_year y = (y - 1) * 365 + (y - 1) div 4 - (y - 1) div 100 + (y - 1) div 400"

text \<open>The constructor \<open>datetime(...)\<close> raises \<open>ValueError\<close> on a field out of range.\<close>

definition datetime_make ::
  "int \<Rightarrow> int \<Rightarrow> int \<Rightarrow> int \<Rightarrow> int \<Rightarrow> int \<Rightarrow> int \<Rightarrow> datetime option" where
  "datetime_make y mo d h mi s us =
     (if 1 \<le> y \<and> y \<le> 9999 \<and> 1 \<le> mo \<and> mo \<le> 12 \<and> 1 \<le> d \<and> d \<le> days_in_month y mo \<and>
         0 \<le> h \<and> h \<le> 23 \<and> 0 \<le> mi \<and> mi \<le> 59 \<and> 0 \<le> s \<and> s \<le> 59 \<and> 0 \<le> us \<and> us \<le> 999999
      then Some \<lparr>dt_year = y, dt_month = mo, dt_day = d, dt_hour = h, dt_minute = mi,
                  dt_second = s, dt_microsecond = us\<rparr>
      else None)"

text \<open>Microseconds since the start of year 1, the scale on which datetimes are subtracted.\<close>

definition to_microseconds :: "datetime \<Rightarrow> int" where
  "to_microseconds dt =
     ((((days_before_year (dt_year dt) + days_before_month (dt_year dt) (dt_month dt)
         + (dt_day dt - 1)) * 24 + dt_hour dt) * 60 + dt_minute dt) * 60 + dt_second dt)
       * 1000000 + dt_microsecond dt"

definition digit_val :: "char \<Rightarrow> int" where
  "digit_val c = of_char c - 48"

definition num2 :: "char \<Rightarrow> char \<Rightarrow> int" where
  "num2 a b = 10 * digit_val a + digit_val b"

text \<open>The directive \<open>%f\<close>: one to six digits, padded with zeros on the right to six.\<close>

definition fraction :: "string \<Rightarrow> int" where
  "fraction ds = foldl (\<lambda>acc c. 10 * acc + digit_val c) 0 (ds @ replicate (6 - length ds) CHR ''0'')"

text \<open>
  \<open>_parse_timestamp\<close>, with the value of \<open>datetime.now().year\<close> as the parameter
  \<open>current_year\<close> (one value for the whole call of the generator).

  First the guard \<open>re.match(r'\d{2}-\d{2}\s+\d{2}:\d{2}:\d{2}\.\d{3}', timestamp_str)\<close>: the
  shape must be a prefix of the string. Then \<open>strptime\<close> of \<open><year>-<timestamp_str>\<close> against
  \<open>%Y-%m-%d %H:%M:%S.%f\<close>, which must consume the whole string: on a string of that shape
  its pattern accepts a four-digit year, a month 01 to 12, a day 01 to 31, an hour 00 to 23, a
  minute 00 to 59, a second 00 to 61 and three to six fraction digits at the end of the
  string; the datetime constructor then refuses a day the month does not have and the
  seconds 60 and 61. Every refusal is an exception that the function catches, returning
  \<open>None\<close>.
\<close>

definition parse_timestamp :: "int \<Rightarrow> string \<Rightarrow> datetime option" where
  "parse_timestamp current_year timestamp_str =
     (case timestamp_str of
        m1 # m2 # c1 # d1 # d2 # rest \<Rightarrow>
          (if isdigit m1 \<and> isdigit m2 \<and> c1 = CHR ''-'' \<and> isdigit d1 \<and> isdigit d2 \<and>
              takeWhile isspace rest \<noteq> []
           then
             (case dropWhile isspace rest of
                h1 # h2 # c2 # mi1 # mi2 # c3 # s1 # s2 # c4 # f1 # f2 # f3 # tail \<Rightarrow>
                  (if isdigit h1 \<and> isdigit h2 \<and> c2 = CHR '':'' \<and> isdigit mi1 \<and> isdigit mi2 \<and>
                      c3 = CHR '':'' \<and> isdigit s1 \<and> isdigit s2 \<and> c4 = CHR ''.'' \<and>
                      isdigit f1 \<and> isdigit f2 \<and> isdigit f3
                   then
                     (if 1000 \<le> current_year \<and> current_year \<le> 9999 \<and>
                         1 \<le> num2 m1 m2 \<and> num2 m1 m2 \<le> 12 \<and>
                         1 \<le> num2 d1 d2 \<and> num2 d1 d2 \<le> 31 \<and>
                         num2 h1 h2 \<le> 23 \<and> num2 mi1 mi2 \<le> 59 \<and> num2 s1 s2 \<le> 61 \<and>
                         length tail \<le> 3 \<and> list_all isdigit tail
                      then datetime_make current_year (num2 m1 m2) (num2 d1 d2) (num2 h1 h2)
                             (num2 mi1 mi2) (num2 s1 s2) (fraction (f1 # f2 # f3 # tail))
                      else None)
                   else None)
              | _ \<Rightarrow> None)
           else None)
      | _ \<Rightarrow> None)"

section \<open>Enrichment\<close>

text \<open>The first loop of \<open>_enrich_events_with_metadata\<close>.\<close>

definition set_sequence_numbers :: "SequenceEvent list \<Rightarrow> SequenceEvent list" where
  "set_sequence_numbers events =
     map (\<lambda>(i, event).
            event\<lparr>metadata := AList.update ''sequence_number'' (MInt (int i + 1)) (metadata event)\<rparr>)
         (enumerate 0 events)"

text \<open>One round of the second loop, at index \<open>i\<close> (always within the list).\<close>

definition timing_step :: "int \<Rightarrow> SequenceEvent list \<Rightarrow> nat \<Rightarrow> SequenceEvent list" where
  "timing_step current_year events i =
     (case (parse_timestamp current_year (SequenceEvent.timestamp (events ! (i - 1))),
            parse_timestamp current_year (SequenceEvent.timestamp (events ! i))) of
        (Some prev_time, Some curr_time) \<Rightarrow>
          events[i := (events ! i)\<lparr>metadata :=
            AList.update ''time_since_previous''
              (MFloat (to_microseconds curr_time - to_microseconds prev_time))
              (metadata (events ! i))\<rparr>]
      | _ \<Rightarrow> events)"

definition enrich_events_with_metadata :: "int \<Rightarrow> SequenceEvent list \<Rightarrow> SequenceEvent list" where
  "enrich_events_with_metadata current_year events =
     (let numbered = set_sequence_numbers events
      in if length numbered > 1
         then foldl (timing_step current_year) numbered [1..<length numbered]
         else numbered)"

section \<open>The generator\<close>

text \<open>
  \<open>re.search(pattern, string)\<close> belongs to Python's library; the generator is modelled for
  an arbitrary engine, given as a function from the pattern and the searched string to the
  outcome of the call: the pattern does not compile (\<open>re.error\<close> is raised), there is no
  match, or there is a match with its groups.
\<close>

datatype search_result = BadPattern | NoMatch | Match groups

type_synonym regex_engine = "string \<Rightarrow> string \<Rightarrow> search_result"

datatype re_error = ReError

text \<open>
  The inner loop over the templates, already sorted. The second component of the result
  counts the calls of \<open>log_error\<close>, one per event whose construction failed. The call of
  \<open>re.search\<close> is outside every \<open>try\<close>, so its exception leaves the generator.
\<close>

fun try_templates ::
  "regex_engine \<Rightarrow> LogEntry \<Rightarrow> Template list \<Rightarrow> re_error + (SequenceEvent option \<times> nat)" where
  "try_templates rx entry [] = Inr (None, 0)"
| "try_templates rx entry (template # rest) =
     (case rx (pattern template) (LogEntry.message entry) of
        BadPattern \<Rightarrow> Inl ReError
      | NoMatch \<Rightarrow> try_templates rx entry rest
      | Match gs \<Rightarrow>
          (case create_sequence_event entry template gs of
             Some event \<Rightarrow> Inr (Some event, 0)
           | None \<Rightarrow>
               (case try_templates rx entry rest of
                  Inl err \<Rightarrow> Inl err
                | Inr (r, n) \<Rightarrow> Inr (r, Suc n))))"

record gen_state =
  sequence_events :: "SequenceEvent list"
  unmatched_entries :: "LogEntry list"
  errors_logged :: nat

text \<open>The outer loop over the log entries; \<open>sorted(templates, key=...)\<close> is a stable sort.\<close>

fun process_entries ::
  "regex_engine \<Rightarrow> Template list \<Rightarrow> LogEntry list \<Rightarrow> gen_state \<Rightarrow> re_error + gen_state" where
  "process_entries rx templates [] st = Inr st"
| "process_entries rx templates (entry # rest) st =
     (case try_templates rx entry (sort_key priority templates) of
        Inl err \<Rightarrow> Inl err
      | Inr (Some event, n) \<Rightarrow>
          process_entries rx templates rest
            (st\<lparr>sequence_events := sequence_events st @ [event],
                errors_logged := errors_logged st + n\<rparr>)
      | Inr (None, n) \<Rightarrow>
          process_entries rx templates rest
            (st\<lparr>unmatched_entries := unmatched_entries st @ [entry],
                errors_logged := errors_logged st + n\<rparr>))"

definition init_state :: gen_state where
  "init_state = \<lparr>sequence_events = [], unmatched_entries = [], errors_logged = 0\<rparr>"

definition generate_sequence_events ::
  "regex_engine \<Rightarrow> int \<Rightarrow> LogEntry list \<Rightarrow> Template list \<Rightarrow> re_error + SequenceEvent list" where
  "generate_sequence_events rx current_year log_entries templates =
     (case process_entries rx templates log_entries init_state of
        Inl err \<Rightarrow> Inl err
      | Inr st \<Rightarrow>
          Inr (enrich_events_with_metadata current_year
                 (sort_key SequenceEvent.timestamp (sequence_events st))))"

section \<open>A small regex engine for the examples\<close>

text \<open>
  The closed examples below need an engine to run. This one covers the patterns made of
  literal letters, digits and spaces and of optional one-character groups \<open>(c)?\<close>, with the
  semantics \<open>re.search\<close> has on them: the leftmost match, a group taking its character
  when it can. It refuses every other pattern.
\<close>

datatype atom = Lit char | OptGroup char

fun parse_pattern :: "string \<Rightarrow> atom list option" where
  "parse_pattern [] = Some []"
| "parse_pattern (c # cs) =
     (if isalnum c \<or> c = CHR '' '' then map_option ((#) (Lit c)) (parse_pattern cs)
      else if c = CHR ''('' then
        (case cs of
           a # r # q # rest \<Rightarrow>
             (if isalnum a \<and> r = CHR '')'' \<and> q = CHR ''?''
              then map_option ((#) (OptGroup a)) (parse_pattern rest)
              else None)
         | _ \<Rightarrow> None)
      else None)"

fun match_here :: "atom list \<Rightarrow> string \<Rightarrow> groups option" where
  "match_here [] s = Some []"
| "match_here (Lit c # atoms) s =
     (case s of [] \<Rightarrow> None | d # ds \<Rightarrow> if d = c then match_here atoms ds else None)"
| "match_here (OptGroup c # atoms) s =
     (case (case s of [] \<Rightarrow> None | d # ds \<Rightarrow> if d = c then match_here atoms ds else None) of
        Some gs \<Rightarrow> Some (Some [c] # gs)
      | None \<Rightarrow> map_option ((#) None) (match_here atoms s))"

fun search_from :: "atom list \<Rightarrow> string \<Rightarrow> groups option" where
  "search_from atoms [] = match_here atoms []"
| "search_from atoms (c # cs) =
     (case match_here atoms (c # cs) of Some gs \<Rightarrow> Some gs | None \<Rightarrow> search_from atoms cs)"

definition mini_search :: regex_engine where
  "mini_search pat s =
     (case parse_pattern pat of
        None \<Rightarrow> BadPattern
      | Some atoms \<Rightarrow> (case search_from atoms s of None \<Rightarrow> NoMatch | Some gs \<Rightarrow> Match gs))"

section \<open>Notions used in the statements\<close>

definition event_for :: "regex_engine \<Rightarrow> Template list \<Rightarrow> LogEntry \<Rightarrow> SequenceEvent option" where
  "event_for rx templates entry =
     (case try_templates rx entry (sort_key priority templates) of
        Inr (Some event, n) \<Rightarrow> Some event
      | _ \<Rightarrow> None)"


definition with_timing :: "int \<Rightarrow> string \<Rightarrow> SequenceEvent \<Rightarrow> SequenceEvent" where
  "with_timing y prev ev =
     (case (parse_timestamp y prev, parse_timestamp y (SequenceEvent.timestamp ev)) of
        (Some prev_time, Some curr_time) \<Rightarrow>
          ev\<lparr>metadata := AList.update ''time_since_previous''
                (MFloat (to_microseconds curr_time - to_microseconds prev_time)) (metadata ev)\<rparr>
      | _ \<Rightarrow> ev)"

definition numbered :: "nat \<Rightarrow> SequenceEvent \<Rightarrow> SequenceEvent" where
  "numbered i ev =
     ev\<lparr>metadata := AList.update ''sequence_number'' (MInt (int i + 1)) (metadata ev)\<rparr>"

definition raw_events :: "regex_engine \<Rightarrow> Template list \<Rightarrow> LogEntry list \<Rightarrow> SequenceEvent list" where
  "raw_events rx ts es = List.map_filter (event_for rx ts) es"

text \<open>The value stored under \<open>time_since_previous\<close> for two adjacent timestamps, if any.\<close>

definition time_since_previous :: "int \<Rightarrow> string \<Rightarrow> string \<Rightarrow> meta_value option" where
  "time_since_previous y prev cur =
     (case (parse_timestamp y prev, parse_timestamp y cur) of
        (Some prev_time, Some curr_time) \<Rightarrow>
          Some (MFloat (to_microseconds curr_time - to_microseconds prev_time))
      | _ \<Rightarrow> None)"

text \<open>A placeholder in braces: an opening brace, a body without braces, a closing brace.\<close>

definition braced :: "string \<Rightarrow> bool" where
  "braced t =
     (case t of
        [] \<Rightarrow> False
      | c # r \<Rightarrow> c = CHR ''{'' \<and> r \<noteq> [] \<and> last r = CHR ''}'' \<and>
                 CHR ''{'' \<notin> set r \<and> CHR ''}'' \<notin> set (butlast r))"

text \<open>
  A mapping string as C5 reads it: plain text without braces, placeholders \<open>{groupN}\<close>
  and the four legacy aliases, one after the other. \<open>render\<close> is the string itself, and
  \<open>claimed_substitution\<close> is what C5 promises for it: every placeholder of an existing
  group stands for that group's value, a placeholder beyond the groups stays as it is, and
  an alias stands for its group (1 to 4) or, without that group, for the empty string.
\<close>

datatype legacy_alias = Timestamp | Level | Tag | Message



datatype segment = Lit string | Group nat | Alias legacy_alias
























text \<open>A run fails when \<open>re.search\<close> raises for some entry before an event is made of it.\<close>

definition run_fails :: "regex_engine \<Rightarrow> Template list \<Rightarrow> LogEntry list \<Rightarrow> bool" where
  "run_fails rx ts es =
     (\<exists>e\<in>set es. \<exists>err. try_templates rx e (sort_key priority ts) = Inl err)"



section \<open>Example data\<close>

definition example_entry :: "string \<Rightarrow> string \<Rightarrow> int \<Rightarrow> LogEntry" where
  "example_entry ts msg n =
     \<lparr>LogEntry.timestamp = ts, level = INFO, tag = ''CameraService'', message = msg,
      original_line = msg, line_number = n\<rparr>"

definition example_template :: "string \<Rightarrow> string \<Rightarrow> int \<Rightarrow> Template" where
  "example_template n p pr =
     \<lparr>name = n, pattern = p,
      sequence_mapping =
        [''from'' \<mapsto> ''System'', ''to'' \<mapsto> ''Camera Service!!'', ''message'' \<mapsto> ''Start''],
      priority = pr, description = []\<rparr>"

text \<open>
  The event the generator builds from \<open>example_entry ts msg n\<close> and
  \<open>example_template tn p pr\<close> with the groups \<open>gs\<close>, followed by the metadata \<open>extra\<close> of
  the enrichment.
\<close>

definition example_event ::
  "string \<Rightarrow> string \<Rightarrow> int \<Rightarrow> string \<Rightarrow> int \<Rightarrow> groups \<Rightarrow> (string \<times> meta_value) list
     \<Rightarrow> SequenceEvent" where
  "example_event ts msg n tn pr gs extra =
     \<lparr>SequenceEvent.timestamp = ts, from_entity = ''System'', to_entity = ''Camera_Service'',
      message = ''Start'', event_type = tn,
      metadata = [(''template_name'', MStr tn), (''template_priority'', MInt pr),
                  (''log_level'', MStr ''I''), (''log_tag'', MStr ''CameraService''),
                  (''groups'', MGroups gs)] @ extra,
      log_entry = Some (example_entry ts msg n)\<rparr>"

definition one_entry :: "LogEntry list" where
  "one_entry = [example_entry ''09-17 10:30:15.000'' ''Camera on'' 1]"

definition one_template :: "Template list" where
  "one_template = [example_template ''Start'' ''Camera'' 1]"


text \<open>Four entries out of order, two of them at the same time and one that matches nothing.\<close>

definition stable_entries :: "LogEntry list" where
  "stable_entries =
     [example_entry ''09-17 10:30:16.000'' ''Camera on'' 1,
      example_entry ''09-17 10:30:15.000'' ''Camera on'' 2,
      example_entry ''09-17 10:30:16.000'' ''Camera off'' 3,
      example_entry ''09-17 10:30:14.000'' ''Audio on'' 4]"

definition stable_events :: "SequenceEvent list" where
  "stable_events =
     [example_event ''09-17 10:30:15.000'' ''Camera on'' 2 ''Start'' 1 []
        [(''sequence_number'', MInt 1)],
      example_event ''09-17 10:30:16.000'' ''Camera on'' 1 ''Start'' 1 []
        [(''sequence_number'', MInt 2), (''time_since_previous'', MFloat 1000000)],
      example_event ''09-17 10:30:16.000'' ''Camera off'' 3 ''Start'' 1 []
        [(''sequence_number'', MInt 3), (''time_since_previous'', MFloat 0)]]"

text \<open>Three entries half a second apart.\<close>

definition p9_entries :: "LogEntry list" where
  "p9_entries =
     [example_entry ''09-17 10:30:15.000'' ''Camera on'' 1,
      example_entry ''09-17 10:30:15.500'' ''Camera on'' 2,
      example_entry ''09-17 10:30:16.000'' ''Camera on'' 3]"

definition p9_events :: "SequenceEvent list" where
  "p9_events =
     [example_event ''09-17 10:30:15.000'' ''Camera on'' 1 ''Start'' 1 []
        [(''sequence_number'', MInt 1)],
      example_event ''09-17 10:30:15.500'' ''Camera on'' 2 ''Start'' 1 []
        [(''sequence_number'', MInt 2), (''time_since_previous'', MFloat 500000)],
      example_event ''09-17 10:30:16.000'' ''Camera on'' 3 ''Start'' 1 []
        [(''sequence_number'', MInt 3), (''time_since_previous'', MFloat 500000)]]"




text \<open>An entry that the example template does not match.\<close>

definition audio_entry :: LogEntry where
  "audio_entry = example_entry ''09-17 10:30:14.000'' ''Audio on'' 4"










section \<open>The structure of a run\<close>

lemma process_entries_events:
  "process_entries rx ts es st = Inr st' \<Longrightarrow>
     sequence_events st' = sequence_events st @ List.map_filter (event_for rx ts) es \<and>
     unmatched_entries st' = unmatched_entries st @ filter (\<lambda>e. event_for rx ts e = None) es"
proof (induction es arbitrary: st)
  case Nil
  then show ?case by (simp add: List.map_filter_simps)
next
  case (Cons e es)
  show ?case
  proof (cases "try_templates rx e (sort_key priority ts)")
    case (Inl err)
    with Cons.prems show ?thesis by simp
  next
    case (Inr r)
    obtain evo n where r: "r = (evo, n)" by (cases r)
    show ?thesis
    proof (cases evo)
      case None
      with Inr r Cons.prems Cons.IH[of "st\<lparr>unmatched_entries := unmatched_entries st @ [e],
                errors_logged := errors_logged st + n\<rparr>"]
      show ?thesis by (simp add: List.map_filter_simps event_for_def)
    next
      case (Some ev)
      with Inr r Cons.prems Cons.IH[of "st\<lparr>sequence_events := sequence_events st @ [ev],
                errors_logged := errors_logged st + n\<rparr>"]
      show ?thesis by (simp add: List.map_filter_simps event_for_def)
    qed
  qed
qed

lemma try_templates_total:
  "\<forall>t\<in>set ts. rx (pattern t) (LogEntry.message e) \<noteq> BadPattern \<Longrightarrow>
     \<exists>r. try_templates rx e ts = Inr r"
proof (induction ts)
  case Nil
  then show ?case by simp
next
  case (Cons t ts)
  then obtain r where r: "try_templates rx e ts = Inr r" by auto
  obtain evo n where "r = (evo, n)" by (cases r)
  with r Cons.prems show ?case
    by (cases "rx (pattern t) (LogEntry.message e)") (auto split: option.splits)
qed

lemma process_entries_total:
  "\<forall>e\<in>set es. \<exists>r. try_templates rx e (sort_key priority ts) = Inr r \<Longrightarrow>
     \<exists>st'. process_entries rx ts es st = Inr st'"
proof (induction es arbitrary: st)
  case Nil
  then show ?case by simp
next
  case (Cons e es)
  then obtain r where r: "try_templates rx e (sort_key priority ts) = Inr r" by auto
  obtain evo n where "r = (evo, n)" by (cases r)
  with r Cons show ?case by (cases evo) auto
qed

lemma timing_step_eq:
  "i < length evs \<Longrightarrow>
     timing_step y evs i = evs[i := with_timing y (SequenceEvent.timestamp (evs ! (i - 1))) (evs ! i)]"
  by (simp add: timing_step_def with_timing_def split: option.splits prod.splits)

lemma with_timing_fields [simp]:
  "SequenceEvent.timestamp (with_timing y p ev) = SequenceEvent.timestamp ev"
  "from_entity (with_timing y p ev) = from_entity ev"
  "to_entity (with_timing y p ev) = to_entity ev"
  "SequenceEvent.message (with_timing y p ev) = SequenceEvent.message ev"
  "event_type (with_timing y p ev) = event_type ev"
  "log_entry (with_timing y p ev) = log_entry ev"
  by (simp_all add: with_timing_def split: option.splits)

lemma foldl_timing_step:
  "k \<le> length evs \<Longrightarrow>
     length (foldl (timing_step y) evs [1..<k]) = length evs \<and>
     (\<forall>i<length evs. foldl (timing_step y) evs [1..<k] ! i =
        (if 1 \<le> i \<and> i < k
         then with_timing y (SequenceEvent.timestamp (evs ! (i - 1))) (evs ! i)
         else evs ! i))"
proof (induction k)
  case 0
  then show ?case by simp
next
  case (Suc k)
  let ?r = "foldl (timing_step y) evs [1..<k]"
  from Suc have IH: "length ?r = length evs"
    "\<And>i. i < length evs \<Longrightarrow> ?r ! i =
        (if 1 \<le> i \<and> i < k
         then with_timing y (SequenceEvent.timestamp (evs ! (i - 1))) (evs ! i)
         else evs ! i)"
    by auto
  show ?case
  proof (cases "k = 0")
    case True
    then show ?thesis by simp
  next
    case False
    from Suc.prems have klt: "k < length evs" by simp
    have prev: "SequenceEvent.timestamp (?r ! (k - 1)) = SequenceEvent.timestamp (evs ! (k - 1))"
      using IH(2)[of "k - 1"] klt by simp
    have cur: "?r ! k = evs ! k"
      using IH(2)[of k] klt by simp
    have step: "foldl (timing_step y) evs [1..<Suc k]
                  = ?r[k := with_timing y (SequenceEvent.timestamp (evs ! (k - 1))) (evs ! k)]"
    proof -
      have "foldl (timing_step y) evs [1..<Suc k] = timing_step y ?r k"
        using False by simp
      also have "\<dots> = ?r[k := with_timing y (SequenceEvent.timestamp (?r ! (k - 1))) (?r ! k)]"
        using klt IH(1) by (simp add: timing_step_eq)
      finally show ?thesis using prev cur by simp
    qed
    show ?thesis
      unfolding step using IH klt False
      by (auto simp: nth_list_update less_Suc_eq)
  qed
qed

lemma set_sequence_numbers_length [simp]:
  "length (set_sequence_numbers evs) = length evs"
  by (simp add: set_sequence_numbers_def)

lemma set_sequence_numbers_nth:
  "i < length evs \<Longrightarrow>
     set_sequence_numbers evs ! i =
       (evs ! i)\<lparr>metadata := AList.update ''sequence_number'' (MInt (int i + 1)) (metadata (evs ! i))\<rparr>"
  by (simp add: set_sequence_numbers_def nth_enumerate_eq)

lemma enrich_length [simp]:
  "length (enrich_events_with_metadata y evs) = length evs"
  using foldl_timing_step[of "length evs" "set_sequence_numbers evs" y]
  by (simp add: enrich_events_with_metadata_def Let_def)

lemma enrich_nth:
  assumes "i < length evs"
  shows "enrich_events_with_metadata y evs ! i =
           (if 1 \<le> i
            then with_timing y (SequenceEvent.timestamp (evs ! (i - 1))) (numbered i (evs ! i))
            else numbered i (evs ! i))"
proof (cases "length evs > 1")
  case True
  with assms foldl_timing_step[of "length evs" "set_sequence_numbers evs" y]
  show ?thesis
    by (simp add: enrich_events_with_metadata_def Let_def set_sequence_numbers_nth numbered_def)
next
  case False
  with assms have "i = 0" by simp
  with assms False show ?thesis
    by (simp add: enrich_events_with_metadata_def Let_def set_sequence_numbers_nth numbered_def)
qed

lemma try_templates_Some:
  "try_templates rx e ts = Inr (Some ev, n) \<Longrightarrow>
     \<exists>t\<in>set ts. \<exists>gs. rx (pattern t) (LogEntry.message e) = Match gs \<and>
        create_sequence_event e t gs = Some ev"
proof (induction ts arbitrary: n)
  case Nil
  then show ?case by simp
next
  case (Cons t ts)
  show ?case
  proof (cases "rx (pattern t) (LogEntry.message e)")
    case BadPattern
    with Cons.prems show ?thesis by simp
  next
    case NoMatch
    with Cons show ?thesis by simp
  next
    case (Match gs)
    show ?thesis
    proof (cases "create_sequence_event e t gs")
      case (Some ev')
      with Match Cons.prems show ?thesis by simp
    next
      case None
      with Match Cons.prems obtain m where "try_templates rx e ts = Inr (Some ev, m)"
        by (auto split: sum.splits)
      with Cons.IH show ?thesis by auto
    qed
  qed
qed

lemma event_for_Some:
  assumes "event_for rx ts e = Some ev"
  shows "\<exists>t\<in>set ts. \<exists>gs. rx (pattern t) (LogEntry.message e) = Match gs \<and>
           create_sequence_event e t gs = Some ev"
proof -
  from assms obtain n where "try_templates rx e (sort_key priority ts) = Inr (Some ev, n)"
    by (auto simp: event_for_def split: sum.splits option.splits)
  from try_templates_Some[OF this] show ?thesis by simp
qed

lemma create_sequence_event_fields:
  assumes "create_sequence_event e t gs = Some ev"
  shows "SequenceEvent.timestamp ev = LogEntry.timestamp e"
    and "event_type ev = name t"
    and "log_entry ev = Some e"
    and "metadata ev = [(''template_name'', MStr (name t)),
                        (''template_priority'', MInt (priority t)),
                        (''log_level'', MStr (LogLevel_value (level e))),
                        (''log_tag'', MStr (tag e)),
                        (''groups'', MGroups gs)]"
    and "map_entity (dict_get (sequence_mapping t) ''from'' ''Unknown'') gs = Inr (from_entity ev)"
    and "map_entity (dict_get (sequence_mapping t) ''to'' ''Unknown'') gs = Inr (to_entity ev)"
    and "map_entity (dict_get (sequence_mapping t) ''message'' ''Event'') gs = Inr (SequenceEvent.message ev)"
  using assms by (auto simp: create_sequence_event_def split: sum.splits)

lemma generate_eq:
  assumes "generate_sequence_events rx y es ts = Inr evs"
  shows "evs = enrich_events_with_metadata y (sort_key SequenceEvent.timestamp (raw_events rx ts es))"
proof -
  from assms obtain st where st: "process_entries rx ts es init_state = Inr st"
    and evs: "evs = enrich_events_with_metadata y (sort_key SequenceEvent.timestamp (sequence_events st))"
    by (auto simp: generate_sequence_events_def split: sum.splits)
  from process_entries_events[OF st] have "sequence_events st = raw_events rx ts es"
    by (simp add: init_state_def raw_events_def)
  with evs show ?thesis by simp
qed

lemma raw_events_set:
  "raw \<in> set (raw_events rx ts es) \<longleftrightarrow> (\<exists>e\<in>set es. event_for rx ts e = Some raw)"
  by (force simp: raw_events_def List.map_filter_def image_iff)

lemma numbered_fields [simp]:
  "SequenceEvent.timestamp (numbered i ev) = SequenceEvent.timestamp ev"
  "from_entity (numbered i ev) = from_entity ev"
  "to_entity (numbered i ev) = to_entity ev"
  "SequenceEvent.message (numbered i ev) = SequenceEvent.message ev"
  "event_type (numbered i ev) = event_type ev"
  "log_entry (numbered i ev) = log_entry ev"
  by (simp_all add: numbered_def)

lemma numbered_meta:
  "map_of (metadata (numbered i ev)) k =
     (if k = ''sequence_number'' then Some (MInt (int i + 1)) else map_of (metadata ev) k)"
  by (simp add: numbered_def update_conv')

lemma with_timing_meta_other:
  "k \<noteq> ''time_since_previous'' \<Longrightarrow>
     map_of (metadata (with_timing y p ev)) k = map_of (metadata ev) k"
  by (simp add: with_timing_def update_conv' split: option.splits)

lemma enrich_nth_fields:
  assumes "i < length s"
  shows "SequenceEvent.timestamp (enrich_events_with_metadata y s ! i) = SequenceEvent.timestamp (s ! i)"
    and "from_entity (enrich_events_with_metadata y s ! i) = from_entity (s ! i)"
    and "to_entity (enrich_events_with_metadata y s ! i) = to_entity (s ! i)"
    and "SequenceEvent.message (enrich_events_with_metadata y s ! i) = SequenceEvent.message (s ! i)"
    and "event_type (enrich_events_with_metadata y s ! i) = event_type (s ! i)"
    and "log_entry (enrich_events_with_metadata y s ! i) = log_entry (s ! i)"
    and "k \<noteq> ''sequence_number'' \<Longrightarrow> k \<noteq> ''time_since_previous'' \<Longrightarrow>
           map_of (metadata (enrich_events_with_metadata y s ! i)) k = map_of (metadata (s ! i)) k"
  using assms by (simp_all add: enrich_nth with_timing_meta_other numbered_meta)


section \<open>Sanitised strings\<close>






















section \<open>Runs of the examples\<close>


lemma stable_run:
  "generate_sequence_events mini_search 2025 stable_entries one_template = Inr stable_events"
  by code_simp

lemma p9_run:
  "generate_sequence_events mini_search 2025 p9_entries one_template = Inr p9_events"
  by code_simp





section \<open>Order of the result\<close>

lemma enrich_map_timestamp:
  "map SequenceEvent.timestamp (enrich_events_with_metadata y s) = map SequenceEvent.timestamp s"
  by (rule nth_equalityI) (simp_all add: enrich_nth_fields)

lemma enrich_map_log_entry:
  "map log_entry (enrich_events_with_metadata y s) = map log_entry s"
  by (rule nth_equalityI) (simp_all add: enrich_nth_fields)

lemma filter_by_timestamp_map:
  "map log_entry (filter (\<lambda>ev. SequenceEvent.timestamp ev = k) xs) =
     map snd (filter (\<lambda>p. fst p = k) (zip (map SequenceEvent.timestamp xs) (map log_entry xs)))"
  by (induction xs) auto

lemma event_for_fields:
  assumes "event_for rx ts e = Some raw"
  shows "SequenceEvent.timestamp raw = LogEntry.timestamp e" and "log_entry raw = Some e"
proof -
  from event_for_Some[OF assms] obtain t gs where "create_sequence_event e t gs = Some raw"
    by blast
  from create_sequence_event_fields(1,3)[OF this]
  show "SequenceEvent.timestamp raw = LogEntry.timestamp e" and "log_entry raw = Some e" .
qed

lemma raw_events_by_timestamp:
  "map log_entry (filter (\<lambda>ev. SequenceEvent.timestamp ev = k) (raw_events rx ts es)) =
     map Some (filter (\<lambda>e. LogEntry.timestamp e = k \<and> event_for rx ts e \<noteq> None) es)"
proof (induction es)
  case Nil
  then show ?case by (simp add: raw_events_def List.map_filter_simps)
next
  case (Cons e es)
  show ?case
  proof (cases "event_for rx ts e")
    case None
    with Cons show ?thesis by (simp add: raw_events_def List.map_filter_simps)
  next
    case (Some raw)
    with Cons event_for_fields[OF Some] show ?thesis
      by (simp add: raw_events_def List.map_filter_simps)
  qed
qed

section \<open>Metadata of the enrichment\<close>

lemma raw_event_no_timing:
  assumes "raw \<in> set (raw_events rx ts es)"
  shows "map_of (metadata raw) ''time_since_previous'' = None"
proof -
  from assms obtain e where "event_for rx ts e = Some raw"
    by (auto simp: raw_events_set)
  from event_for_Some[OF this] obtain t gs where "create_sequence_event e t gs = Some raw"
    by blast
  from create_sequence_event_fields(4)[OF this] show ?thesis by simp
qed

lemma with_timing_meta:
  "map_of (metadata ev) ''time_since_previous'' = None \<Longrightarrow>
     map_of (metadata (with_timing y p ev)) ''time_since_previous'' =
       time_since_previous y p (SequenceEvent.timestamp ev)"
  by (simp add: with_timing_def time_since_previous_def update_conv' split: option.splits)

section \<open>Placeholders\<close>

lemma str_contains_Nil [simp]: "str_contains [] s"
  by (cases s) simp_all



lemma str_contains_iff: "str_contains p s \<longleftrightarrow> (\<exists>u w. s = u @ p @ w)"
proof (induction s)
  case Nil
  then show ?case by auto
next
  case (Cons c cs)
  show ?case
  proof
    assume "str_contains p (c # cs)"
    then consider "prefix p (c # cs)" | "str_contains p cs" by auto
    then show "\<exists>u w. c # cs = u @ p @ w"
    proof cases
      case 1
      then obtain w where "c # cs = p @ w" by (auto simp: prefix_def)
      then have "c # cs = [] @ p @ w" by simp
      then show ?thesis by blast
    next
      case 2
      with Cons obtain u w where "cs = u @ p @ w" by auto
      then have "c # cs = (c # u) @ p @ w" by simp
      then show ?thesis by blast
    qed
  next
    assume "\<exists>u w. c # cs = u @ p @ w"
    then obtain u w where e: "c # cs = u @ p @ w" by auto
    show "str_contains p (c # cs)"
    proof (cases u)
      case Nil
      with e have "prefix p (c # cs)" by (simp add: prefix_def)
      then show ?thesis by simp
    next
      case (Cons d u')
      with e have "cs = u' @ p @ w" by simp
      with Cons.IH show ?thesis by auto
    qed
  qed
qed

lemma braced_same_start:
  assumes "braced p" and "braced q" and "prefix p s" and "prefix q s"
  shows "p = q"
proof -
  have aux: "a = b" if "braced a" "braced b" "prefix a b" for a b
  proof -
    from that(3) obtain z where z: "b = a @ z" by (auto simp: prefix_def)
    from that(1) obtain ra where a: "a = CHR ''{'' # ra" "ra \<noteq> []" "last ra = CHR ''}''"
      by (auto simp: braced_def split: list.splits)
    from that(2) z a have nb: "CHR ''}'' \<notin> set (butlast (ra @ z))"
      by (auto simp: braced_def)
    show ?thesis
    proof (cases "z = []")
      case True
      with z show ?thesis by simp
    next
      case False
      then have "butlast (ra @ z) = ra @ butlast z" by (simp add: butlast_append)
      with nb a(2,3) have False
        by (metis Un_iff last_in_set set_append)
      then show ?thesis ..
    qed
  qed
  from assms(3,4) have "prefix p q \<or> prefix q p"
    by (rule prefix_same_cases)
  with aux[OF assms(1,2)] aux[OF assms(2,1)] show ?thesis by auto
qed

lemma str_replace_skip:
  assumes "CHR ''{'' \<notin> set t" and "q \<noteq> []" and "hd q = CHR ''{''"
  shows "str_replace q v (t @ w) = t @ str_replace q v w"
  using assms(1)
proof (induction t)
  case Nil
  then show ?case by simp
next
  case (Cons d t)
  from Cons.prems assms(2,3) have "\<not> prefix q (d # t @ w)"
    by (cases q) auto
  with Cons assms(2) show ?case by simp
qed

lemma str_replace_over_braced:
  assumes "braced p" and "braced q" and "p \<noteq> q"
  shows "str_replace q v (p @ w) = p @ str_replace q v w"
proof -
  from assms(1) obtain rp where p: "p = CHR ''{'' # rp" "CHR ''{'' \<notin> set rp"
    by (auto simp: braced_def split: list.splits)
  from assms(2) have q: "q \<noteq> []" "hd q = CHR ''{''"
    by (auto simp: braced_def split: list.splits)
  have "\<not> prefix q (p @ w)"
    using braced_same_start[OF assms(1,2), of "p @ w"] assms(3) by auto
  with q(1) have "str_replace q v (p @ w) = CHR ''{'' # str_replace q v (rp @ w)"
    by (simp add: p(1))
  also have "\<dots> = CHR ''{'' # rp @ str_replace q v w"
    by (simp add: str_replace_skip[OF p(2) q])
  finally show ?thesis by (simp add: p(1))
qed

lemma str_contains_appendI: "str_contains p s \<Longrightarrow> str_contains p (v @ s)"
proof -
  assume "str_contains p s"
  then obtain u w where "s = u @ p @ w" by (auto simp: str_contains_iff)
  then have "v @ s = (v @ u) @ p @ w" by simp
  then show ?thesis unfolding str_contains_iff by blast
qed

lemma str_replace_keeps_braced:
  assumes "braced p" and "braced q" and "p \<noteq> q"
  shows "str_contains p s \<Longrightarrow> str_contains p (str_replace q v s)"
proof (induction s rule: length_induct)
  case (1 s)
  from assms(2) have q: "q \<noteq> []" by (auto simp: braced_def)
  from assms(2) obtain rq where rq: "q = CHR ''{'' # rq" "CHR ''{'' \<notin> set rq"
    by (auto simp: braced_def split: list.splits)
  from assms(1) obtain rp where rp: "p = CHR ''{'' # rp"
    by (auto simp: braced_def split: list.splits)
  show ?case
  proof (cases s)
    case Nil
    with "1.prems" q show ?thesis by simp
  next
    case (Cons c cs)
    show ?thesis
    proof (cases "prefix q s")
      case True
      define rest where "rest = drop (length q - 1) cs"
      from True Cons q have s: "s = q @ rest"
        by (cases q) (auto simp: prefix_def rest_def)
      from "1.prems" obtain u w where uw: "s = u @ p @ w"
        by (auto simp: str_contains_iff)
      have "str_contains p rest"
      proof -
        from s uw have "q @ rest = u @ p @ w" by simp
        then obtain z where z: "(q = u @ z \<and> p @ w = z @ rest) \<or> (q @ z = u \<and> rest = z @ p @ w)"
          by (auto simp: append_eq_append_conv2)
        then show ?thesis
        proof
          assume b: "q @ z = u \<and> rest = z @ p @ w"
          then show ?thesis unfolding str_contains_iff by blast
        next
          assume a: "q = u @ z \<and> p @ w = z @ rest"
          show ?thesis
          proof (cases "z = []")
            case True
            with a have "rest = [] @ p @ w" by simp
            then show ?thesis unfolding str_contains_iff by blast
          next
            case False
            with a rp have hz: "hd z = CHR ''{''"
              by (cases z) auto
            show ?thesis
            proof (cases "u = []")
              case True
              with a have "prefix q (p @ w)" by (simp add: prefix_def)
              with braced_same_start[OF assms(1,2), of "p @ w"] assms(3) show ?thesis by simp
            next
              case False
              with a rq \<open>z \<noteq> []\<close> hz have "CHR ''{'' \<in> set rq"
                by (cases u; cases z) auto
              with rq(2) show ?thesis by simp
            qed
          qed
        qed
      qed
      moreover have "length rest < length s"
        using s q by simp
      ultimately have "str_contains p (str_replace q v rest)"
        using "1.IH" by blast
      then have "str_contains p (v @ str_replace q v rest)"
        by (rule str_contains_appendI)
      with True Cons q show ?thesis by (simp add: rest_def)
    next
      case False
      with Cons q have r: "str_replace q v s = c # str_replace q v cs" by simp
      from "1.prems" Cons consider "prefix p (c # cs)" | "str_contains p cs" by auto
      then show ?thesis
      proof cases
        case 1
        then obtain w where w: "s = p @ w" using Cons by (auto simp: prefix_def)
        have "str_replace q v s = [] @ p @ str_replace q v w"
          unfolding w by (simp add: str_replace_over_braced[OF assms])
        then show ?thesis unfolding str_contains_iff by blast
      next
        case 2
        then have "str_contains p (str_replace q v cs)"
          using "1.IH" Cons by simp
        then have "str_contains p ([c] @ str_replace q v cs)"
          by (rule str_contains_appendI)
        with r show ?thesis by simp
      qed
    qed
  qed
qed





























section \<open>Runs that do not fail\<close>

lemma re_error_unique: "(err :: re_error) = ReError"
  by (cases err) simp

lemma try_templates_no_match:
  "\<forall>t\<in>set ts. rx (pattern t) (LogEntry.message e) = NoMatch \<Longrightarrow>
     try_templates rx e ts = Inr (None, 0)"
  by (induction ts) simp_all

lemma event_for_no_match:
  "\<forall>t\<in>set ts. rx (pattern t) (LogEntry.message e) = NoMatch \<Longrightarrow> event_for rx ts e = None"
  using try_templates_no_match[of "sort_key priority ts" rx e]
  by (simp add: event_for_def)

lemma process_entries_Inl:
  "(\<exists>err. process_entries rx ts es st = Inl err) \<longleftrightarrow>
     (\<exists>e\<in>set es. \<exists>err. try_templates rx e (sort_key priority ts) = Inl err)"
proof (induction es arbitrary: st)
  case Nil
  then show ?case by simp
next
  case (Cons e es)
  show ?case
  proof (cases "try_templates rx e (sort_key priority ts)")
    case (Inl err)
    then show ?thesis by simp
  next
    case (Inr r)
    obtain evo n where r: "r = (evo, n)" by (cases r)
    show ?thesis
    proof (cases evo)
      case None
      with Inr r Cons.IH[of "st\<lparr>unmatched_entries := unmatched_entries st @ [e],
                errors_logged := errors_logged st + n\<rparr>"]
      show ?thesis by simp
    next
      case (Some ev)
      with Inr r Cons.IH[of "st\<lparr>sequence_events := sequence_events st @ [ev],
                errors_logged := errors_logged st + n\<rparr>"]
      show ?thesis by simp
    qed
  qed
qed

lemma generate_cases:
  "generate_sequence_events rx y es ts =
     (if run_fails rx ts es then Inl ReError
      else Inr (enrich_events_with_metadata y
                  (sort_key SequenceEvent.timestamp (raw_events rx ts es))))"
proof (cases "run_fails rx ts es")
  case True
  then obtain err where "process_entries rx ts es init_state = Inl err"
    using process_entries_Inl[of rx ts es init_state] by (auto simp: run_fails_def)
  with True show ?thesis
    by (simp add: generate_sequence_events_def re_error_unique[of err])
next
  case False
  then have "\<not> (\<exists>err. process_entries rx ts es init_state = Inl err)"
    using process_entries_Inl[of rx ts es init_state] by (simp add: run_fails_def)
  then obtain st where st: "process_entries rx ts es init_state = Inr st"
    by (cases "process_entries rx ts es init_state") auto
  then have "generate_sequence_events rx y es ts =
               Inr (enrich_events_with_metadata y
                      (sort_key SequenceEvent.timestamp (sequence_events st)))"
    by (simp add: generate_sequence_events_def)
  then have "Inr (enrich_events_with_metadata y
                      (sort_key SequenceEvent.timestamp (sequence_events st))) =
             Inr (enrich_events_with_metadata y
                  (sort_key SequenceEvent.timestamp (raw_events rx ts es)))"
    using generate_eq[of rx y es ts] by simp
  with st False show ?thesis
    by (simp add: generate_sequence_events_def)
qed

lemma compile_no_failure:
  assumes "\<forall>t\<in>set ts. \<forall>e\<in>set es. rx (pattern t) (LogEntry.message e) \<noteq> BadPattern"
  shows "\<not> run_fails rx ts es"
proof
  assume "run_fails rx ts es"
  then obtain e err where e: "e \<in> set es"
    and f: "try_templates rx e (sort_key priority ts) = Inl err"
    by (auto simp: run_fails_def)
  from assms e have "\<forall>t\<in>set (sort_key priority ts). rx (pattern t) (LogEntry.message e) \<noteq> BadPattern"
    by simp
  with try_templates_total[of "sort_key priority ts" rx e] f show False by simp
qed

lemma enrich_Nil [simp]: "enrich_events_with_metadata y [] = []"
  by (simp add: enrich_events_with_metadata_def set_sequence_numbers_def)

lemma raw_events_append:
  "raw_events rx ts (a @ b) = raw_events rx ts a @ raw_events rx ts b"
  by (simp add: raw_events_def List.map_filter_def)

lemma raw_events_drop:
  "event_for rx ts e = None \<Longrightarrow> raw_events rx ts (es1 @ e # es2) = raw_events rx ts (es1 @ es2)"
  by (simp add: raw_events_def List.map_filter_def)

lemma split_count:
  "length (List.map_filter f es) + length (filter (\<lambda>e. f e = None) es) = length es"
  by (induction es) (auto simp: List.map_filter_simps split: option.splits)

section \<open>The current year\<close>









section \<open>The template loop\<close>









section \<open>Metadata of the events\<close>




section \<open>Entities are identifiers\<close>




section \<open>Chronological order\<close>

text \<open>
  C2. The result is sorted ascending by the timestamp strings, and the sort is stable: for
  every timestamp \<open>k\<close>, the events with that timestamp originate, in this order, from the
  entries with that timestamp that produced an event, in the order of the input.
\<close>

theorem sorted_and_stable:
  assumes "generate_sequence_events rx y es ts = Inr evs"
  shows "sorted (map SequenceEvent.timestamp evs) \<and>
         map log_entry (filter (\<lambda>ev. SequenceEvent.timestamp ev = k) evs) =
           map Some (filter (\<lambda>e. LogEntry.timestamp e = k \<and> event_for rx ts e \<noteq> None) es)"
proof -
  let ?s = "sort_key SequenceEvent.timestamp (raw_events rx ts es)"
  from generate_eq[OF assms] have evs: "evs = enrich_events_with_metadata y ?s" .
  have "sorted (map SequenceEvent.timestamp evs)"
    unfolding evs enrich_map_timestamp by (rule sorted_sort_key)
  moreover have "map log_entry (filter (\<lambda>ev. SequenceEvent.timestamp ev = k) evs) =
                 map log_entry (filter (\<lambda>ev. SequenceEvent.timestamp ev = k) ?s)"
    unfolding evs filter_by_timestamp_map enrich_map_timestamp enrich_map_log_entry ..
  moreover have "filter (\<lambda>ev. SequenceEvent.timestamp ev = k) ?s =
                 filter (\<lambda>ev. SequenceEvent.timestamp ev = k) (raw_events rx ts es)"
    by (rule sort_key_stable)
  ultimately show ?thesis
    by (simp add: raw_events_by_timestamp)
qed

theorem sorted_and_stable_witness:
  "(sorted (map SequenceEvent.timestamp stable_events) \<and>
    map log_entry (filter (\<lambda>ev. SequenceEvent.timestamp ev = ''09-17 10:30:16.000'') stable_events) =
      map Some (filter (\<lambda>e. LogEntry.timestamp e = ''09-17 10:30:16.000'' \<and>
                             event_for mini_search one_template e \<noteq> None) stable_entries)) \<and>
   map line_number (filter (\<lambda>e. LogEntry.timestamp e = ''09-17 10:30:16.000'' \<and>
                             event_for mini_search one_template e \<noteq> None) stable_entries) = [1, 3]"
proof -
  have "map line_number (filter (\<lambda>e. LogEntry.timestamp e = ''09-17 10:30:16.000'' \<and>
                             event_for mini_search one_template e \<noteq> None) stable_entries) = [1, 3]"
    by code_simp
  with sorted_and_stable[OF stable_run, of "''09-17 10:30:16.000''"] show ?thesis
    by blast
qed

section \<open>Sequence numbers and time differences\<close>

text \<open>
  C3, as the code has it. After the sort, the event at position \<open>i\<close> (from 0) of the result
  has \<open>sequence_number\<close> \<open>i + 1\<close>. The first event has no time difference; every other
  event has, under the key \<open>time_since_previous\<close>, the difference between its own parsed
  timestamp and that of the event before it when both timestamps parse (format
  \<open>MM-DD HH:MM:SS.mmm\<close>, current year), and no such key when one of them does not parse.
\<close>

theorem enrichment_fields:
  assumes "generate_sequence_events rx y es ts = Inr evs" and "i < length evs"
  shows "map_of (metadata (evs ! i)) ''sequence_number'' = Some (MInt (int i + 1)) \<and>
         map_of (metadata (evs ! i)) ''time_since_previous'' =
           (if i = 0 then None
            else time_since_previous y (SequenceEvent.timestamp (evs ! (i - 1)))
                   (SequenceEvent.timestamp (evs ! i)))"
proof -
  let ?s = "sort_key SequenceEvent.timestamp (raw_events rx ts es)"
  from generate_eq[OF assms(1)] have evs: "evs = enrich_events_with_metadata y ?s" .
  with assms(2) have i: "i < length ?s" by simp
  then have "?s ! i \<in> set (raw_events rx ts es)"
    using nth_mem[of i ?s] by simp
  then have none: "map_of (metadata (?s ! i)) ''time_since_previous'' = None"
    by (rule raw_event_no_timing)
  then have none': "map_of (metadata (numbered i (?s ! i))) ''time_since_previous'' = None"
    by (simp add: numbered_meta)
  have seq: "map_of (metadata (evs ! i)) ''sequence_number'' = Some (MInt (int i + 1))"
    unfolding evs using i
    by (simp add: enrich_nth with_timing_meta_other numbered_meta)
  have tim: "map_of (metadata (evs ! i)) ''time_since_previous'' =
           (if i = 0 then None
            else time_since_previous y (SequenceEvent.timestamp (evs ! (i - 1)))
                   (SequenceEvent.timestamp (evs ! i)))"
  proof (cases "i = 0")
    case True
    with i none' show ?thesis unfolding evs by (simp add: enrich_nth)
  next
    case False
    with i have "i - 1 < length ?s" by simp
    from enrich_nth_fields(1)[OF this, of y] enrich_nth_fields(1)[OF i, of y] False i none'
    show ?thesis unfolding evs
      by (simp add: enrich_nth with_timing_meta)
  qed
  from seq tim show ?thesis ..
qed

theorem enrichment_fields_witness:
  "(map_of (metadata (p9_events ! 1)) ''sequence_number'' = Some (MInt (int 1 + 1)) \<and>
    map_of (metadata (p9_events ! 1)) ''time_since_previous'' =
      (if (1::nat) = 0 then None
       else time_since_previous 2025 (SequenceEvent.timestamp (p9_events ! (1 - 1)))
              (SequenceEvent.timestamp (p9_events ! 1)))) \<and>
   time_since_previous 2025 (SequenceEvent.timestamp (p9_events ! (1 - 1)))
     (SequenceEvent.timestamp (p9_events ! 1)) = Some (MFloat 500000) \<and>
   map_of (metadata (p9_events ! 0)) ''time_since_previous'' = None"
proof -
  have len: "1 < length p9_events"
    by (simp add: p9_events_def)
  have "time_since_previous 2025 (SequenceEvent.timestamp (p9_events ! (1 - 1)))
          (SequenceEvent.timestamp (p9_events ! 1)) = Some (MFloat 500000)"
    by code_simp
  moreover have "map_of (metadata (p9_events ! 0)) ''time_since_previous'' = None"
    by code_simp
  ultimately show ?thesis
    using enrichment_fields[OF p9_run len] by blast
qed

text \<open>
  C3 as stated names the key \<open>time_since_previous_seconds\<close>: in this run both timestamps
  parse and the second event has no such key.
\<close>

theorem time_since_previous_seconds_counterexample:
  "generate_sequence_events mini_search 2025 p9_entries one_template = Inr p9_events \<and>
   parse_timestamp 2025 (SequenceEvent.timestamp (p9_events ! 0)) \<noteq> None \<and>
   parse_timestamp 2025 (SequenceEvent.timestamp (p9_events ! 1)) \<noteq> None \<and>
   map_of (metadata (p9_events ! 1)) ''time_since_previous_seconds'' = None"
proof -
  have "parse_timestamp 2025 (SequenceEvent.timestamp (p9_events ! 0)) \<noteq> None"
    by code_simp
  moreover have "parse_timestamp 2025 (SequenceEvent.timestamp (p9_events ! 1)) \<noteq> None"
    by code_simp
  moreover have "map_of (metadata (p9_events ! 1)) ''time_since_previous_seconds'' = None"
    by code_simp
  ultimately show ?thesis using p9_run by blast
qed

section \<open>Placeholder substitution\<close>




section \<open>The result of the entity mapper\<close>




section \<open>No match is no error\<close>

text \<open>
  C7. When the patterns of the templates compile (\<open>re.search\<close> raises for none of them),
  the generator returns a sequence, whatever the entries and their timestamps are and
  whether or not an event can be constructed: every entry either gives an event or is added
  to the unmatched entries. An entry whose message no pattern matches gives no event, and
  the result is the same as without that entry. When no entry matches any template the
  result is the empty sequence.
\<close>

theorem no_match_no_error:
  "((\<forall>t\<in>set ts. \<forall>e\<in>set es. rx (pattern t) (LogEntry.message e) \<noteq> BadPattern) \<longrightarrow>
      (\<exists>st. process_entries rx ts es init_state = Inr st \<and>
            generate_sequence_events rx y es ts =
              Inr (enrich_events_with_metadata y
                     (sort_key SequenceEvent.timestamp (sequence_events st))) \<and>
            unmatched_entries st = filter (\<lambda>e. event_for rx ts e = None) es \<and>
            length (sequence_events st) + length (unmatched_entries st) = length es)) \<and>
   ((\<forall>t\<in>set ts. rx (pattern t) (LogEntry.message e) = NoMatch) \<longrightarrow>
      event_for rx ts e = None \<and>
      generate_sequence_events rx y (es1 @ e # es2) ts =
        generate_sequence_events rx y (es1 @ es2) ts) \<and>
   ((\<forall>e\<in>set es. \<forall>t\<in>set ts. rx (pattern t) (LogEntry.message e) = NoMatch) \<longrightarrow>
      generate_sequence_events rx y es ts = Inr [])"
proof (intro conjI impI)
  assume c: "\<forall>t\<in>set ts. \<forall>e\<in>set es. rx (pattern t) (LogEntry.message e) \<noteq> BadPattern"
  have "\<forall>e\<in>set es. \<exists>r. try_templates rx e (sort_key priority ts) = Inr r"
  proof
    fix e assume "e \<in> set es"
    with c have "\<forall>t\<in>set (sort_key priority ts). rx (pattern t) (LogEntry.message e) \<noteq> BadPattern"
      by simp
    with try_templates_total[of "sort_key priority ts" rx e]
    show "\<exists>r. try_templates rx e (sort_key priority ts) = Inr r" by simp
  qed
  from process_entries_total[OF this, of init_state] obtain st where
    st: "process_entries rx ts es init_state = Inr st" by blast
  from process_entries_events[OF st] have
    ev: "sequence_events st = raw_events rx ts es" and
    un: "unmatched_entries st = filter (\<lambda>e. event_for rx ts e = None) es"
    by (simp_all add: init_state_def raw_events_def)
  have "length (sequence_events st) + length (unmatched_entries st) = length es"
    unfolding ev un raw_events_def by (rule split_count)
  with st un show "\<exists>st. process_entries rx ts es init_state = Inr st \<and>
            generate_sequence_events rx y es ts =
              Inr (enrich_events_with_metadata y
                     (sort_key SequenceEvent.timestamp (sequence_events st))) \<and>
            unmatched_entries st = filter (\<lambda>e. event_for rx ts e = None) es \<and>
            length (sequence_events st) + length (unmatched_entries st) = length es"
    by (simp add: generate_sequence_events_def)
next
  assume n: "\<forall>t\<in>set ts. rx (pattern t) (LogEntry.message e) = NoMatch"
  then show "event_for rx ts e = None" by (rule event_for_no_match)
next
  assume n: "\<forall>t\<in>set ts. rx (pattern t) (LogEntry.message e) = NoMatch"
  then have none: "event_for rx ts e = None" by (rule event_for_no_match)
  from n have "try_templates rx e (sort_key priority ts) = Inr (None, 0)"
    by (auto intro!: try_templates_no_match)
  then have "run_fails rx ts (es1 @ e # es2) = run_fails rx ts (es1 @ es2)"
    by (auto simp: run_fails_def)
  then show "generate_sequence_events rx y (es1 @ e # es2) ts =
        generate_sequence_events rx y (es1 @ es2) ts"
    by (simp add: generate_cases raw_events_drop[OF none])
next
  assume a: "\<forall>e\<in>set es. \<forall>t\<in>set ts. rx (pattern t) (LogEntry.message e) = NoMatch"
  then have c: "\<forall>t\<in>set ts. \<forall>e\<in>set es. rx (pattern t) (LogEntry.message e) \<noteq> BadPattern"
    by auto
  have "raw_events rx ts es = []"
    using a by (auto simp: raw_events_def List.map_filter_def filter_empty_conv
        dest!: event_for_no_match[rotated] intro: event_for_no_match)
  with compile_no_failure[OF c] show "generate_sequence_events rx y es ts = Inr []"
    by (simp add: generate_cases)
qed

theorem no_match_no_error_witness:
  "(\<exists>st. process_entries mini_search one_template stable_entries init_state = Inr st \<and>
         generate_sequence_events mini_search 2025 stable_entries one_template =
           Inr (enrich_events_with_metadata 2025
                  (sort_key SequenceEvent.timestamp (sequence_events st))) \<and>
         unmatched_entries st =
           filter (\<lambda>e. event_for mini_search one_template e = None) stable_entries \<and>
         length (sequence_events st) + length (unmatched_entries st) = length stable_entries) \<and>
   filter (\<lambda>e. event_for mini_search one_template e = None) stable_entries = [audio_entry] \<and>
   event_for mini_search one_template audio_entry = None \<and>
   generate_sequence_events mini_search 2025 (one_entry @ audio_entry # []) one_template =
     generate_sequence_events mini_search 2025 (one_entry @ []) one_template \<and>
   generate_sequence_events mini_search 2025 [audio_entry] one_template = Inr []"
proof -
  have h1: "\<forall>t\<in>set one_template. \<forall>e\<in>set stable_entries.
              mini_search (pattern t) (LogEntry.message e) \<noteq> BadPattern"
    by code_simp
  have h2: "\<forall>t\<in>set one_template. mini_search (pattern t) (LogEntry.message audio_entry) = NoMatch"
    by code_simp
  have h3: "\<forall>e\<in>set [audio_entry]. \<forall>t\<in>set one_template.
              mini_search (pattern t) (LogEntry.message e) = NoMatch"
    by code_simp
  have v: "filter (\<lambda>e. event_for mini_search one_template e = None) stable_entries = [audio_entry]"
    by code_simp
  note a = no_match_no_error[of one_template stable_entries mini_search 2025 audio_entry one_entry "[]"]
  note b = no_match_no_error[of one_template "[audio_entry]" mini_search 2025 audio_entry one_entry "[]"]
  from a h1 have c1: "\<exists>st. process_entries mini_search one_template stable_entries init_state = Inr st \<and>
         generate_sequence_events mini_search 2025 stable_entries one_template =
           Inr (enrich_events_with_metadata 2025
                  (sort_key SequenceEvent.timestamp (sequence_events st))) \<and>
         unmatched_entries st =
           filter (\<lambda>e. event_for mini_search one_template e = None) stable_entries \<and>
         length (sequence_events st) + length (unmatched_entries st) = length stable_entries"
    by blast
  from a h2 have c2: "event_for mini_search one_template audio_entry = None"
    and c3: "generate_sequence_events mini_search 2025 (one_entry @ audio_entry # []) one_template =
     generate_sequence_events mini_search 2025 (one_entry @ []) one_template"
    by blast+
  from b h3 have c4: "generate_sequence_events mini_search 2025 [audio_entry] one_template = Inr []"
    by blast
  from c1 v c2 c3 c4 show ?thesis by blast
qed

section \<open>Dependence on the clock\<close>




section \<open>Template selection\<close>




section \<open>Failed constructions\<close>




end
